theory Spec2Isabelle
  imports Main "HOL-Library.Multiset" "HOL-Library.Char_ord" "HOL-Library.List_Lexorder"
begin

section \<open>Data model\<close>

text \<open>
  A byte is a \<^typ>\<open>char\<close> (eight bits); a Buffer is a list of bytes. A JavaScript string
  is represented by its UTF-8 encoding, so that \<open>hash.update(s, 'utf8')\<close> feeds the string
  itself.
\<close>

type_synonym bytes = "char list"

text \<open>
  The values \<open>normalizeBuffer\<close> can receive (its parameter has type \<open>any\<close>). Numbers are the
  integer-valued ones; an object is the list of its own enumerable properties in the order
  \<open>Object.values\<close> enumerates them.
\<close>

datatype jsval =
    JUndefined
  | JNull
  | JBool bool
  | JNum int
  | JStr string
  | JFunction
  | JBuffer bytes
  | JArray "jsval list"
  | JObject "(string \<times> jsval) list"

text \<open>
  The three places where the code throws. \<open>SystemError code path\<close> is an error of the
  \<open>fs\<close> module with its \<open>code\<close> and \<open>path\<close> properties; the other two are the
  \<open>new Error(...)\<close> of \<open>normalizeBuffer\<close> and of \<open>stripBasePath\<close> (with the two paths
  of its message).
\<close>

datatype error =
    UnsupportedDataFormat
  | NotUnderBasePath string string
  | SystemError string string

text \<open>The interface \<open>File\<close> of types.ts; the write options are opaque.\<close>

record 'o File =
  name :: string
  parentPath :: string
  path :: string
  data :: jsval
  options :: "'o option"

text \<open>
  What the code takes from the platform: the SHA-256 digest of a byte stream, the
  locale-aware comparison \<open>String.prototype.localeCompare\<close>, the byte that
  \<open>Buffer.from(array)\<close> stores for an element that is not an integer-valued number, and the
  working directory of the process, against which \<open>path.relative\<close> resolves.
\<close>

record platform =
  sha256 :: "bytes \<Rightarrow> bytes"
  localeCompare :: "string \<Rightarrow> string \<Rightarrow> int"
  coerceByte :: "jsval \<Rightarrow> char"
  cwd :: string

section \<open>normalizeBuffer\<close>

text \<open>
  \<open>Buffer.from(array)\<close> stores each element converted to an unsigned byte: an integer
  modulo 256.
\<close>

fun toUint8 :: "platform \<Rightarrow> jsval \<Rightarrow> char" where
  "toUint8 env (JNum n) = char_of n"
| "toUint8 env v = coerceByte env v"

definition bufferFrom :: "platform \<Rightarrow> jsval list \<Rightarrow> bytes" where
  "bufferFrom env xs = map (toUint8 env) xs"

definition objectValues :: "(string \<times> jsval) list \<Rightarrow> jsval list" where
  "objectValues kvs = map snd kvs"

fun normalizeBuffer :: "platform \<Rightarrow> jsval \<Rightarrow> error + bytes" where
  "normalizeBuffer env (JBuffer b) = Inr b"
| "normalizeBuffer env (JArray xs) = Inr (bufferFrom env xs)"
| "normalizeBuffer env (JObject kvs) = Inr (bufferFrom env (objectValues kvs))"
| "normalizeBuffer env v = Inl UnsupportedDataFormat"

text \<open>The shapes for which \<open>typeof data === 'object' && data !== null\<close> is false.\<close>

fun notObject :: "jsval \<Rightarrow> bool" where
  "notObject JUndefined = True"
| "notObject JNull = True"
| "notObject (JBool b) = True"
| "notObject (JNum n) = True"
| "notObject (JStr s) = True"
| "notObject JFunction = True"
| "notObject v = False"

text \<open>An array of numeric bytes, as a value.\<close>

definition byteArray :: "bytes \<Rightarrow> jsval list" where
  "byteArray bs = map (\<lambda>c. JNum (of_char c)) bs"

section \<open>computeMetaHash\<close>

text \<open>
  \<open>Array.prototype.sort\<close> with a comparator is stable; it is modelled by the stable
  insertion sort.
\<close>

fun insertBy :: "('a \<Rightarrow> 'a \<Rightarrow> int) \<Rightarrow> 'a \<Rightarrow> 'a list \<Rightarrow> 'a list" where
  "insertBy c x [] = [x]"
| "insertBy c x (y # ys) = (if c x y \<le> 0 then x # y # ys else y # insertBy c x ys)"

definition sortBy :: "('a \<Rightarrow> 'a \<Rightarrow> int) \<Rightarrow> 'a list \<Rightarrow> 'a list" where
  "sortBy c xs = foldr (insertBy c) xs []"

definition sortKey :: "'o File \<Rightarrow> string" where
  "sortKey f = parentPath f @ ''/'' @ name f"

definition compareFiles :: "platform \<Rightarrow> 'o File \<Rightarrow> 'o File \<Rightarrow> int" where
  "compareFiles env a b = localeCompare env (sortKey a) (sortKey b)"

definition newline :: char where
  "newline = CHR 0x0A"

text \<open>
  The bytes the \<open>forEach\<close> feeds to the hash for the records from the current one on; the
  first record whose data \<open>normalizeBuffer\<close> refuses throws. The digest of successive
  \<open>hash.update\<close> calls is the digest of their concatenation.
\<close>

fun hashUpdates :: "platform \<Rightarrow> 'o File list \<Rightarrow> error + bytes" where
  "hashUpdates env [] = Inr []"
| "hashUpdates env (f # fs) =
     (case normalizeBuffer env (data f) of
        Inl e \<Rightarrow> Inl e
      | Inr d \<Rightarrow>
          (case hashUpdates env fs of
             Inl e \<Rightarrow> Inl e
           | Inr rest \<Rightarrow> Inr (parentPath f @ '':'' @ name f @ '':'' @ d @ [newline] @ rest)))"

definition computeMetaHash :: "platform \<Rightarrow> 'o File list \<Rightarrow> error + bytes" where
  "computeMetaHash env files =
     (case hashUpdates env (sortBy (compareFiles env) files) of
        Inl e \<Rightarrow> Inl e
      | Inr stream \<Rightarrow> Inr (sha256 env stream))"

text \<open>
  The triple of a record that reaches the hash: the two path fields and the outcome of
  normalising the content.
\<close>

definition contentTriple :: "platform \<Rightarrow> 'o File \<Rightarrow> string \<times> string \<times> (error + bytes)" where
  "contentTriple env f = (parentPath f, name f, normalizeBuffer env (data f))"

text \<open>
  A comparator as \<open>Array.prototype.sort\<close> expects it: the sign of \<open>c a b\<close> is the opposite
  of the sign of \<open>c b a\<close>, and the order is transitive.
\<close>

definition consistentComparator :: "('a \<Rightarrow> 'a \<Rightarrow> int) \<Rightarrow> bool" where
  "consistentComparator c =
     ((\<forall>a b. (c a b < 0) = (0 < c b a)) \<and>
      (\<forall>x y z. c x y \<le> 0 \<and> c y z \<le> 0 \<longrightarrow> c x z \<le> 0))"

text \<open>
  Records of the file-set whose sort keys compare equal feed the same bytes to the hash:
  they have the same \<open>parentPath\<close>, \<open>name\<close> and normalised content.
\<close>

definition distinctKeys :: "platform \<Rightarrow> 'o File list \<Rightarrow> bool" where
  "distinctKeys env files =
     (\<forall>a \<in> set files. \<forall>b \<in> set files.
        compareFiles env a b = 0 \<longrightarrow> contentTriple env a = contentTriple env b)"

text \<open>The sort key is read off the triple, so the comparison is one of triples.\<close>

definition compareTriples ::
  "platform \<Rightarrow> string \<times> string \<times> (error + bytes) \<Rightarrow> string \<times> string \<times> (error + bytes) \<Rightarrow> int" where
  "compareTriples env t u =
     localeCompare env (fst t @ ''/'' @ fst (snd t)) (fst u @ ''/'' @ fst (snd u))"

subsection \<open>The arrays of \<open>computeMetaHash\<close>, in a store\<close>

text \<open>
  An array is a reference into a store; \<open>allocated\<close> is the first reference not yet in
  use. The spread \<open>[...files]\<close> allocates a new array with the elements of \<open>files\<close>;
  \<open>Array.prototype.sort\<close> sorts the array it is called on in place and returns it.
\<close>

record 'o store =
  arrays :: "nat \<Rightarrow> 'o File list"
  allocated :: nat

definition spreadArray :: "nat \<Rightarrow> 'o store \<Rightarrow> nat \<times> 'o store" where
  "spreadArray r st =
     (allocated st,
      st\<lparr> arrays := (arrays st)(allocated st := arrays st r),
          allocated := Suc (allocated st) \<rparr>)"

definition sortArray :: "('o File \<Rightarrow> 'o File \<Rightarrow> int) \<Rightarrow> nat \<Rightarrow> 'o store \<Rightarrow> nat \<times> 'o store" where
  "sortArray c r st = (r, st\<lparr> arrays := (arrays st)(r := sortBy c (arrays st r)) \<rparr>)"

text \<open>
  \<open>computeMetaHash\<close> on the array \<open>files\<close> of a store, with the array operations of the
  source: the spread, the sort of its result, and the \<open>forEach\<close> over the sorted array.
\<close>

definition computeMetaHashOnArray ::
  "platform \<Rightarrow> nat \<Rightarrow> 'o store \<Rightarrow> (error + bytes) \<times> 'o store" where
  "computeMetaHashOnArray env files st =
     (case spreadArray files st of
        (copy, st1) \<Rightarrow>
          (case sortArray (compareFiles env) copy st1 of
             (sortedCopy, st2) \<Rightarrow>
               (case hashUpdates env (arrays st2 sortedCopy) of
                  Inl e \<Rightarrow> (Inl e, st2)
                | Inr stream \<Rightarrow> (Inr (sha256 env stream), st2))))"

text \<open>
  A record whose fields end where the hashed stream has its next separator: no colon in
  \<open>parentPath\<close> and \<open>name\<close>, no newline byte in the content.
\<close>

definition delimiterFree :: "platform \<Rightarrow> 'o File \<Rightarrow> bool" where
  "delimiterFree env f =
     (CHR '':'' \<notin> set (parentPath f) \<and> CHR '':'' \<notin> set (name f) \<and>
      (case normalizeBuffer env (data f) of Inl e \<Rightarrow> True | Inr d \<Rightarrow> newline \<notin> set d))"

text \<open>
  Two sequences of records of the same length whose fields have, record by record, the
  same lengths: as when the paths are the same and a content has some of its bytes
  changed.
\<close>

definition contentLength :: "platform \<Rightarrow> 'o File \<Rightarrow> nat" where
  "contentLength env f = (case normalizeBuffer env (data f) of Inl e \<Rightarrow> 0 | Inr d \<Rightarrow> length d)"

definition sameLengths :: "platform \<Rightarrow> 'o File list \<Rightarrow> 'o File list \<Rightarrow> bool" where
  "sameLengths env xs ys =
     list_all2
       (\<lambda>a b. length (parentPath a) = length (parentPath b) \<and>
              length (name a) = length (name b) \<and>
              contentLength env a = contentLength env b)
       xs ys"

text \<open>
  Two sequences of records that feed the same triples to the hash except at one place at
  most, where the parentPath and the name have the same lengths in both and the contents
  are any: as when one file of the set has its content changed, whatever the new length.
\<close>

fun oneRecordApart :: "platform \<Rightarrow> 'o File list \<Rightarrow> 'o File list \<Rightarrow> bool" where
  "oneRecordApart env [] [] = True"
| "oneRecordApart env (a # as) (b # bs) =
     ((contentTriple env a = contentTriple env b \<and> oneRecordApart env as bs) \<or>
      (length (parentPath a) = length (parentPath b) \<and> length (name a) = length (name b) \<and>
       map (contentTriple env) as = map (contentTriple env) bs))"
| "oneRecordApart env as bs = False"

text \<open>Whether every element is a number in the range of a byte.\<close>

fun isByte :: "jsval \<Rightarrow> bool" where
  "isByte (JNum n) = (0 \<le> n \<and> n \<le> 255)"
| "isByte v = False"

text \<open>
  The three shapes the specification accepts: a Buffer, an array of numeric bytes, an
  object whose enumerable values are numeric bytes.
\<close>

fun byteLike :: "jsval \<Rightarrow> bool" where
  "byteLike (JBuffer b) = True"
| "byteLike (JArray xs) = list_all isByte xs"
| "byteLike (JObject kvs) = list_all isByte (objectValues kvs)"
| "byteLike v = False"

section \<open>Paths (the POSIX functions of the module \<open>path\<close>)\<close>

text \<open>The pieces of a path between its slashes; a path with no slash is one piece.\<close>

fun splitPath :: "string \<Rightarrow> string list" where
  "splitPath [] = [[]]"
| "splitPath (c # cs) =
     (if c = CHR ''/'' then [] # splitPath cs
      else (case splitPath cs of [] \<Rightarrow> [[c]] | s # ss \<Rightarrow> (c # s) # ss))"

fun joinSegments :: "string list \<Rightarrow> string" where
  "joinSegments [] = []"
| "joinSegments [s] = s"
| "joinSegments (s # ss) = s @ ''/'' @ joinSegments ss"

text \<open>
  \<open>normalizeString\<close> of the module, segment by segment: an empty segment and \<open>.\<close> are
  dropped; \<open>..\<close> removes the last kept segment unless there is none or it is \<open>..\<close>
  itself, in which case it is kept when the path may climb above its start and dropped
  otherwise.
\<close>

fun normalizeSegments :: "bool \<Rightarrow> string list \<Rightarrow> string list \<Rightarrow> string list" where
  "normalizeSegments allowAboveRoot res [] = res"
| "normalizeSegments allowAboveRoot res (s # ss) =
     (if s = [] \<or> s = ''.'' then normalizeSegments allowAboveRoot res ss
      else if s = ''..'' then
        (if res \<noteq> [] \<and> last res \<noteq> ''..''
           then normalizeSegments allowAboveRoot (butlast res) ss
         else if allowAboveRoot
           then normalizeSegments allowAboveRoot (res @ [''..'']) ss
         else normalizeSegments allowAboveRoot res ss)
      else normalizeSegments allowAboveRoot (res @ [s]) ss)"

definition normalizeString :: "bool \<Rightarrow> string \<Rightarrow> string" where
  "normalizeString allowAboveRoot p =
     joinSegments (normalizeSegments allowAboveRoot [] (splitPath p))"

definition isAbsolute :: "string \<Rightarrow> bool" where
  "isAbsolute p = (case p of [] \<Rightarrow> False | c # cs \<Rightarrow> c = CHR ''/'')"

definition trailingSeparator :: "string \<Rightarrow> bool" where
  "trailingSeparator p = (p \<noteq> [] \<and> last p = CHR ''/'')"

definition posixNormalize :: "string \<Rightarrow> string" where
  "posixNormalize p =
     (if p = [] then ''.''
      else
        (let n = normalizeString (\<not> isAbsolute p) p in
         if n = [] then
           (if isAbsolute p then ''/'' else if trailingSeparator p then ''./'' else ''.'')
         else
           (if isAbsolute p then ''/'' else []) @ n @
           (if trailingSeparator p then ''/'' else [])))"

text \<open>\<open>path.join\<close> of two arguments: the non-empty ones, joined by a slash, normalised.\<close>

definition pathJoin :: "string \<Rightarrow> string \<Rightarrow> string" where
  "pathJoin a b =
     (if a = [] \<and> b = [] then ''.''
      else posixNormalize (if a = [] then b else if b = [] then a else a @ ''/'' @ b))"

text \<open>
  \<open>path.resolve\<close> of one argument, as the segments of the absolute path it returns: a
  relative path is taken from the working directory, which is absolute.
\<close>

definition resolveSegments :: "platform \<Rightarrow> string \<Rightarrow> string list" where
  "resolveSegments env p =
     normalizeSegments False []
       (splitPath (if isAbsolute p then p else cwd env @ ''/'' @ p))"

definition resolve :: "platform \<Rightarrow> string \<Rightarrow> string" where
  "resolve env p = ''/'' @ joinSegments (resolveSegments env p)"

fun commonLength :: "'a list \<Rightarrow> 'a list \<Rightarrow> nat" where
  "commonLength (x # xs) (y # ys) = (if x = y then Suc (commonLength xs ys) else 0)"
| "commonLength xs ys = 0"

text \<open>
  \<open>path.relative(from, to)\<close>: both paths are resolved; the result climbs with one
  \<open>..\<close> for every segment of \<open>from\<close> after the common prefix and then descends along
  the rest of \<open>to\<close>. (The module scans the two resolved strings character by character
  for the last common separator, which is this comparison of segments.)
\<close>

definition relative :: "platform \<Rightarrow> string \<Rightarrow> string \<Rightarrow> string" where
  "relative env from to =
     (if from = to then []
      else if resolve env from = resolve env to then []
      else
        (let fromSegs = resolveSegments env from;
             toSegs = resolveSegments env to;
             common = commonLength fromSegs toSegs
         in joinSegments (replicate (length fromSegs - common) ''..'' @ drop common toSegs)))"

section \<open>stripBasePath\<close>

text \<open>\<open>.replace(/^\.\/+/g, '')\<close>: a leading \<open>./\<close> and the slashes after it are removed.\<close>

fun stripDotSlash :: "string \<Rightarrow> string" where
  "stripDotSlash (c # d # rest) =
     (if c = CHR ''.'' \<and> d = CHR ''/'' then dropWhile (\<lambda>x. x = CHR ''/'') rest
      else c # d # rest)"
| "stripDotSlash s = s"

definition startsWith :: "string \<Rightarrow> string \<Rightarrow> bool" where
  "startsWith s pre = (take (length pre) s = pre)"

definition stripBasePath :: "platform \<Rightarrow> string \<Rightarrow> string \<Rightarrow> error + string" where
  "stripBasePath env fullPath basePath =
     (let relativePath = relative env basePath fullPath in
      if startsWith relativePath ''..'' then Inl (NotUnderBasePath fullPath basePath)
      else Inr (stripDotSlash (posixNormalize relativePath)))"

text \<open>
  What it means for \<open>fullPath\<close> to be under \<open>basePath\<close>: the segments of the resolved base
  are a prefix of the segments of the resolved full path.
\<close>

definition underBase :: "platform \<Rightarrow> string \<Rightarrow> string \<Rightarrow> bool" where
  "underBase env fullPath basePath =
     (take (length (resolveSegments env basePath)) (resolveSegments env fullPath)
        = resolveSegments env basePath)"

section \<open>The module \<open>fs\<close>\<close>

text \<open>What \<open>stats.isDirectory()\<close> and \<open>stats.isFile()\<close> answer.\<close>

datatype stats = StatsDirectory | StatsFile | StatsOther

text \<open>
  The three calls the write path makes, over any state \<open>'s\<close> of the disk: each returns
  its outcome and the state it leaves, also when it fails. \<open>fs_mkdir\<close> is
  \<open>fs.mkdir(path, { recursive: true })\<close>; \<open>fs_writeFile\<close> receives the options of the
  record, \<open>None\<close> standing for the default \<open>{}\<close>.
\<close>

record ('s, 'o) fsModule =
  fs_stat :: "string \<Rightarrow> 's \<Rightarrow> (error + stats) \<times> 's"
  fs_mkdir :: "string \<Rightarrow> 's \<Rightarrow> (error + unit) \<times> 's"
  fs_writeFile :: "string \<Rightarrow> bytes \<Rightarrow> 'o option \<Rightarrow> 's \<Rightarrow> (error + unit) \<times> 's"

text \<open>The property \<open>code\<close> of a thrown value; the two plain errors have none.\<close>

fun errorCode :: "error \<Rightarrow> string option" where
  "errorCode (SystemError code p) = Some code"
| "errorCode e = None"

section \<open>checkFolderExists\<close>

definition checkFolderExists :: "('s, 'o) fsModule \<Rightarrow> string \<Rightarrow> 's \<Rightarrow> (error + bool) \<times> 's" where
  "checkFolderExists fs p s =
     (case fs_stat fs p s of
        (Inr st, s') \<Rightarrow> (Inr (st = StatsDirectory), s')
      | (Inl err, s') \<Rightarrow>
          (if errorCode err = Some ''ENOENT'' then (Inr False, s') else (Inl err, s')))"

section \<open>writeFiles\<close>

text \<open>\<open>if (!(await checkFolderExists(p))) await fs.mkdir(p, { recursive: true })\<close>\<close>

definition ensureFolder :: "('s, 'o) fsModule \<Rightarrow> string \<Rightarrow> 's \<Rightarrow> (error + unit) \<times> 's" where
  "ensureFolder fs p s =
     (case checkFolderExists fs p s of
        (Inl e, s') \<Rightarrow> (Inl e, s')
      | (Inr found, s') \<Rightarrow> (if found then (Inr (), s') else fs_mkdir fs p s'))"

text \<open>The body of the loop, for one record.\<close>

definition writeOne ::
  "platform \<Rightarrow> ('s, 'o) fsModule \<Rightarrow> string \<Rightarrow> 'o File \<Rightarrow> 's \<Rightarrow> (error + unit) \<times> 's" where
  "writeOne env fs workDir f s =
     (let targetDir = pathJoin workDir (parentPath f) in
      case ensureFolder fs targetDir s of
        (Inl e, s') \<Rightarrow> (Inl e, s')
      | (Inr u, s') \<Rightarrow>
          (case normalizeBuffer env (data f) of
             Inl e \<Rightarrow> (Inl e, s')
           | Inr d \<Rightarrow> fs_writeFile fs (pathJoin targetDir (name f)) d (options f) s'))"

fun writeAll ::
  "platform \<Rightarrow> ('s, 'o) fsModule \<Rightarrow> string \<Rightarrow> 'o File list \<Rightarrow> 's \<Rightarrow> (error + unit) \<times> 's" where
  "writeAll env fs workDir [] s = (Inr (), s)"
| "writeAll env fs workDir (f # rest) s =
     (case writeOne env fs workDir f s of
        (Inl e, s') \<Rightarrow> (Inl e, s')
      | (Inr u, s') \<Rightarrow> writeAll env fs workDir rest s')"

definition writeFiles ::
  "platform \<Rightarrow> ('s, 'o) fsModule \<Rightarrow> string \<Rightarrow> 'o File list \<Rightarrow> 's \<Rightarrow> (error + bytes) \<times> 's" where
  "writeFiles env fs workDir files s =
     (case ensureFolder fs workDir s of
        (Inl e, s') \<Rightarrow> (Inl e, s')
      | (Inr u, s') \<Rightarrow>
          (case writeAll env fs workDir files s' of
             (Inl e, s'') \<Rightarrow> (Inl e, s'')
           | (Inr u', s'') \<Rightarrow> (computeMetaHash env files, s'')))"


section \<open>A disk of files and directories\<close>

text \<open>
  A directory is the list of its entries in the order \<open>opendir\<close> enumerates them. Entries
  that are neither regular files nor directories are not part of this disk.
\<close>

datatype node = FileNode bytes | DirNode "(string \<times> node) list"

fun putEntry :: "string \<Rightarrow> node \<Rightarrow> (string \<times> node) list \<Rightarrow> (string \<times> node) list" where
  "putEntry k v [] = [(k, v)]"
| "putEntry k v ((k', v') # es) = (if k' = k then (k, v) # es else (k', v') # putEntry k v es)"

text \<open>The node a resolved path leads to; \<open>p\<close> is the path as given, for the error.\<close>

fun nodeAt :: "node \<Rightarrow> string list \<Rightarrow> string \<Rightarrow> error + node" where
  "nodeAt n [] p = Inr n"
| "nodeAt (DirNode es) (s # ss) p =
     (case map_of es s of
        None \<Rightarrow> Inl (SystemError ''ENOENT'' p)
      | Some c \<Rightarrow> nodeAt c ss p)"
| "nodeAt (FileNode d) (s # ss) p = Inl (SystemError ''ENOTDIR'' p)"

fun statsOf :: "node \<Rightarrow> stats" where
  "statsOf (DirNode es) = StatsDirectory"
| "statsOf (FileNode d) = StatsFile"

text \<open>
  \<open>mkdir\<close> with \<open>recursive: true\<close>: existing directories are entered, missing ones are
  created, a file in the way is an error.
\<close>

fun mkdirNode :: "node \<Rightarrow> string list \<Rightarrow> string \<Rightarrow> error + node" where
  "mkdirNode (DirNode es) [] p = Inr (DirNode es)"
| "mkdirNode (FileNode d) [] p = Inl (SystemError ''EEXIST'' p)"
| "mkdirNode (DirNode es) (s # ss) p =
     (case mkdirNode (case map_of es s of None \<Rightarrow> DirNode [] | Some c \<Rightarrow> c) ss p of
        Inl e \<Rightarrow> Inl e
      | Inr c' \<Rightarrow> Inr (DirNode (putEntry s c' es)))"
| "mkdirNode (FileNode d) (s # ss) p = Inl (SystemError ''ENOTDIR'' p)"

text \<open>
  \<open>writeFile\<close> with the default flag: the file is created or replaced in a directory that
  exists; a directory cannot be written.
\<close>

fun writeNode :: "node \<Rightarrow> string list \<Rightarrow> bytes \<Rightarrow> string \<Rightarrow> error + node" where
  "writeNode n [] d p = Inl (SystemError ''EISDIR'' p)"
| "writeNode (DirNode es) [s] d p =
     (case map_of es s of
        Some (DirNode sub) \<Rightarrow> Inl (SystemError ''EISDIR'' p)
      | other \<Rightarrow> Inr (DirNode (putEntry s (FileNode d) es)))"
| "writeNode (DirNode es) (s # ss) d p =
     (case map_of es s of
        None \<Rightarrow> Inl (SystemError ''ENOENT'' p)
      | Some c \<Rightarrow>
          (case writeNode c ss d p of
             Inl e \<Rightarrow> Inl e
           | Inr c' \<Rightarrow> Inr (DirNode (putEntry s c' es))))"
| "writeNode (FileNode x) (s # ss) d p = Inl (SystemError ''ENOTDIR'' p)"

text \<open>The module \<open>fs\<close> over such a disk; the state is the root directory.\<close>

definition diskFs :: "platform \<Rightarrow> (node, 'o) fsModule" where
  "diskFs env =
     \<lparr> fs_stat = (\<lambda>p root.
         (case nodeAt root (resolveSegments env p) p of
            Inl e \<Rightarrow> (Inl e, root)
          | Inr n \<Rightarrow> (Inr (statsOf n), root))),
       fs_mkdir = (\<lambda>p root.
         (case mkdirNode root (resolveSegments env p) p of
            Inl e \<Rightarrow> (Inl e, root)
          | Inr root' \<Rightarrow> (Inr (), root'))),
       fs_writeFile = (\<lambda>p d opts root.
         (case writeNode root (resolveSegments env p) d p of
            Inl e \<Rightarrow> (Inl e, root)
          | Inr root' \<Rightarrow> (Inr (), root'))) \<rparr>"



section \<open>readFiles\<close>

text \<open>
  The loop over the entries of \<open>dir\<close>. The recursive call \<open>readFiles(fullPath, baseDir)\<close>
  opens the subdirectory, whose entries are the ones the entry holds.
\<close>

function readEntries ::
  "platform \<Rightarrow> string \<Rightarrow> string \<Rightarrow> (string \<times> node) list \<Rightarrow> error + 'o File list" where
  "readEntries env baseDir dir [] = Inr []"
| "readEntries env baseDir dir ((entryName, DirNode sub) # rest) =
     (case readEntries env baseDir (pathJoin dir entryName) sub of
        Inl e \<Rightarrow> Inl e
      | Inr subFiles \<Rightarrow>
          (case readEntries env baseDir dir rest of
             Inl e \<Rightarrow> Inl e
           | Inr others \<Rightarrow> Inr (subFiles @ others)))"
| "readEntries env baseDir dir ((entryName, FileNode fileData) # rest) =
     (case stripBasePath env dir baseDir of
        Inl e \<Rightarrow> Inl e
      | Inr relativeParent \<Rightarrow>
          (case stripBasePath env (pathJoin dir entryName) baseDir of
             Inl e \<Rightarrow> Inl e
           | Inr relativePath \<Rightarrow>
               (case readEntries env baseDir dir rest of
                  Inl e \<Rightarrow> Inl e
                | Inr others \<Rightarrow>
                    Inr (\<lparr> name = entryName, parentPath = ''./'' @ relativeParent,
                           path = ''./'' @ relativePath, data = JBuffer fileData,
                           options = None \<rparr> # others))))"
  by pat_completeness auto
termination
  by (relation "measure (\<lambda>(env, baseDir, dir, es). size_list (size_prod (\<lambda>x. 0) size) es)")
     auto

definition readFilesFrom :: "platform \<Rightarrow> node \<Rightarrow> string \<Rightarrow> string \<Rightarrow> error + 'o File list" where
  "readFilesFrom env root dir baseDir =
     (case nodeAt root (resolveSegments env dir) dir of
        Inl e \<Rightarrow> Inl e
      | Inr (FileNode d) \<Rightarrow> Inl (SystemError ''ENOTDIR'' dir)
      | Inr (DirNode es) \<Rightarrow> readEntries env baseDir dir es)"

text \<open>The parameter \<open>baseDir\<close> defaults to \<open>dir\<close>.\<close>

definition readFiles :: "platform \<Rightarrow> node \<Rightarrow> string \<Rightarrow> error + 'o File list" where
  "readFiles env root dir = readFilesFrom env root dir dir"

section \<open>A platform for the closed instances\<close>

text \<open>
  Strings compare by their code units, the digest of a stream is the stream itself (a
  hash without collisions), every element that is not a number is stored as the byte 0,
  and the process runs in \<open>/home/user\<close>.
\<close>

definition codeUnitCompare :: "string \<Rightarrow> string \<Rightarrow> int" where
  "codeUnitCompare a b = (if a = b then 0 else if a < b then - 1 else 1)"

definition testPlatform :: platform where
  "testPlatform =
     \<lparr> sha256 = (\<lambda>stream. stream), localeCompare = codeUnitCompare,
       coerceByte = (\<lambda>v. CHR 0x00), cwd = ''/home/user'' \<rparr>"

text \<open>A record at the root of a file-set, built as index.ts builds the two key files.\<close>

definition rootFile :: "string \<Rightarrow> jsval \<Rightarrow> unit File" where
  "rootFile fileName content =
     \<lparr> name = fileName, parentPath = ''./'', path = ''./'' @ fileName, data = content,
       options = None \<rparr>"

section \<open>Properties of normalizeBuffer\<close>

lemma bufferFrom_byteArray: "bufferFrom env (byteArray bs) = bs"
  by (induction bs) (simp_all add: bufferFrom_def byteArray_def)

lemma normalizeBuffer_fails_iff:
  "(normalizeBuffer env v = Inl UnsupportedDataFormat) = notObject v"
  by (cases v) simp_all

lemma normalizeBuffer_returns_iff:
  "(\<exists>b. normalizeBuffer env v = Inr b) = (\<not> notObject v)"
  by (cases v) simp_all

text \<open>
  C4, as the specification states it, at the object \<open>{ a: 300 }\<close>: its value is not a
  byte, so the object is none of the three accepted shapes, and yet \<open>normalizeBuffer\<close>
  returns a Buffer (the byte 300 mod 256 = 44) where the claim has it fail.
\<close>

theorem normalizeBuffer_non_byte_object_counterexample:
  "\<not> byteLike (JObject [(''a'', JNum 300)]) \<and>
   normalizeBuffer testPlatform (JObject [(''a'', JNum 300)]) = Inr [CHR 0x2C]"
  by (simp add: bufferFrom_def objectValues_def char_of_def)

text \<open>
  C4 (amended): \<open>normalizeBuffer\<close> returns a Buffer unchanged; it converts every array
  element by element, an array of numeric bytes to exactly those bytes; it converts every
  non-null object that is neither a Buffer nor an array by converting its enumerable
  values in order, whether or not they are bytes; and it fails, with the unsupported-data
  error, exactly for \<open>undefined\<close>, \<open>null\<close>, the primitives and functions.
\<close>

theorem normalizeBuffer_shapes:
  "normalizeBuffer env (JBuffer b) = Inr b \<and>
   normalizeBuffer env (JArray xs) = Inr (map (toUint8 env) xs) \<and>
   normalizeBuffer env (JArray (byteArray bs)) = Inr bs \<and>
   normalizeBuffer env (JObject kvs) = Inr (map (toUint8 env) (map snd kvs)) \<and>
   normalizeBuffer env (JObject (map (\<lambda>kc. (fst kc, JNum (of_char (snd kc)))) kcs))
     = Inr (map snd kcs) \<and>
   (normalizeBuffer env v = Inl UnsupportedDataFormat) = notObject v \<and>
   (\<exists>b. normalizeBuffer env v = Inr b) = (\<not> notObject v)"
proof -
  have "objectValues (map (\<lambda>kc. (fst kc, JNum (of_char (snd kc)))) kcs)
      = byteArray (map snd kcs)"
    by (simp add: objectValues_def byteArray_def comp_def)
  then have byteValues:
    "bufferFrom env (objectValues (map (\<lambda>kc. (fst kc, JNum (of_char (snd kc)))) kcs))
      = map snd kcs"
    by (simp add: bufferFrom_byteArray)
  have "normalizeBuffer env (JBuffer b) = Inr b"
    by simp
  moreover have "normalizeBuffer env (JArray xs) = Inr (map (toUint8 env) xs)"
    by (simp add: bufferFrom_def)
  moreover have "normalizeBuffer env (JArray (byteArray bs)) = Inr bs"
    by (simp add: bufferFrom_byteArray)
  moreover have "normalizeBuffer env (JObject kvs) = Inr (map (toUint8 env) (map snd kvs))"
    by (simp add: bufferFrom_def objectValues_def)
  moreover have
    "normalizeBuffer env (JObject (map (\<lambda>kc. (fst kc, JNum (of_char (snd kc)))) kcs))
      = Inr (map snd kcs)"
    using byteValues by simp
  ultimately show ?thesis
    using normalizeBuffer_fails_iff [of env v] normalizeBuffer_returns_iff [of env v]
    by blast
qed

section \<open>Properties of computeMetaHash\<close>

lemma mset_insertBy: "mset (insertBy c x xs) = add_mset x (mset xs)"
  by (induction xs) simp_all

lemma mset_sortBy: "mset (sortBy c xs) = mset xs"
  unfolding sortBy_def by (induction xs) (simp_all add: mset_insertBy)

lemma set_insertBy: "set (insertBy c x xs) = insert x (set xs)"
  using mset_insertBy [of c x xs] by (metis set_mset_add_mset_insert set_mset_mset)

lemma set_sortBy: "set (sortBy c xs) = set xs"
  using mset_sortBy [of c xs] by (metis set_mset_mset)

lemma comparator_total: "consistentComparator c \<Longrightarrow> c a b \<le> 0 \<or> c b a \<le> 0"
  unfolding consistentComparator_def by (metis not_less order_less_imp_le)

lemma comparator_trans:
  "consistentComparator c \<Longrightarrow> c x y \<le> 0 \<Longrightarrow> c y z \<le> 0 \<Longrightarrow> c x z \<le> 0"
  unfolding consistentComparator_def by blast

lemma comparator_both:
  "consistentComparator c \<Longrightarrow> c a b \<le> 0 \<Longrightarrow> c b a \<le> 0 \<Longrightarrow> c a b = 0"
  unfolding consistentComparator_def by (metis not_less order_antisym_conv)

lemma sorted_insertBy:
  assumes "consistentComparator c" and "sorted_wrt (\<lambda>a b. c a b \<le> 0) xs"
  shows "sorted_wrt (\<lambda>a b. c a b \<le> 0) (insertBy c x xs)"
  using assms(2)
proof (induction xs)
  case Nil
  then show ?case by simp
next
  case (Cons y ys)
  show ?case
  proof (cases "c x y \<le> 0")
    case True
    with Cons.prems assms(1) show ?thesis
      by (auto intro: comparator_trans)
  next
    case False
    then have "c y x \<le> 0" using comparator_total [OF assms(1), of x y] by simp
    with False Cons show ?thesis by (auto simp: set_insertBy)
  qed
qed

lemma sorted_sortBy:
  "consistentComparator c \<Longrightarrow> sorted_wrt (\<lambda>a b. c a b \<le> 0) (sortBy c xs)"
  unfolding sortBy_def by (induction xs) (simp_all add: sorted_insertBy)

text \<open>
  Two sorted lists with the same elements are the same list, when no two different
  elements are below each other.
\<close>

lemma sorted_wrt_same_elements:
  assumes "sorted_wrt le xs" and "sorted_wrt le ys" and "mset xs = mset ys"
    and "\<And>a b. a \<in> set xs \<Longrightarrow> b \<in> set xs \<Longrightarrow> le a b \<Longrightarrow> le b a \<Longrightarrow> a = b"
  shows "xs = ys"
  using assms
proof (induction xs arbitrary: ys)
  case Nil
  then show ?case by simp
next
  case (Cons x xs)
  then obtain y ys' where ys: "ys = y # ys'" by (cases ys) auto
  have sets: "set (x # xs) = set (y # ys')"
    using Cons.prems(3) ys by (metis set_mset_mset)
  have "x = y"
  proof (rule ccontr)
    assume ne: "x \<noteq> y"
    then have "x \<in> set ys'" and "y \<in> set xs" using sets by auto
    then have "le y x" and "le x y" using Cons.prems(1,2) ys by auto
    moreover have "x \<in> set (x # xs)" and "y \<in> set (x # xs)" using \<open>y \<in> set xs\<close> by auto
    ultimately show False using Cons.prems(4) ne by blast
  qed
  moreover have "xs = ys'"
  proof (rule Cons.IH)
    show "sorted_wrt le xs" using Cons.prems(1) by simp
    show "sorted_wrt le ys'" using Cons.prems(2) ys by simp
    show "mset xs = mset ys'" using Cons.prems(3) ys \<open>x = y\<close> by simp
    show "\<And>a b. a \<in> set xs \<Longrightarrow> b \<in> set xs \<Longrightarrow> le a b \<Longrightarrow> le b a \<Longrightarrow> a = b"
      using Cons.prems(4) by simp
  qed
  ultimately show ?case using ys by simp
qed

lemma consistent_compareTriples:
  "consistentComparator (localeCompare env) \<Longrightarrow> consistentComparator (compareTriples env)"
  unfolding consistentComparator_def compareTriples_def by blast

lemma compareFiles_triples:
  "compareFiles env a b = compareTriples env (contentTriple env a) (contentTriple env b)"
  by (simp add: compareFiles_def compareTriples_def contentTriple_def sortKey_def)

lemma map_insertBy:
  assumes "\<And>a b. c a b = c' (f a) (f b)"
  shows "map f (insertBy c x xs) = insertBy c' (f x) (map f xs)"
  by (induction xs) (simp_all add: assms [symmetric])

lemma map_sortBy:
  assumes "\<And>a b. c a b = c' (f a) (f b)"
  shows "map f (sortBy c xs) = sortBy c' (map f xs)"
  unfolding sortBy_def by (induction xs) (simp_all add: map_insertBy [of c c' f, OF assms])

text \<open>The stream fed to the hash is a function of the sequence of triples.\<close>

lemma hashUpdates_triples:
  "map (contentTriple env) xs = map (contentTriple env) ys \<Longrightarrow>
   hashUpdates env xs = hashUpdates env ys"
proof (induction xs arbitrary: ys)
  case Nil
  then show ?case by simp
next
  case (Cons x xs)
  then obtain y ys' where ys: "ys = y # ys'" by (cases ys) auto
  with Cons.prems have head: "contentTriple env x = contentTriple env y"
    and tail: "map (contentTriple env) xs = map (contentTriple env) ys'" by simp_all
  from head have "parentPath x = parentPath y" "name x = name y"
    "normalizeBuffer env (data x) = normalizeBuffer env (data y)"
    by (simp_all add: contentTriple_def)
  moreover have "hashUpdates env xs = hashUpdates env ys'"
    using tail by (rule Cons.IH)
  ultimately show ?case using ys by (auto split: sum.splits)
qed

lemma sorted_triples_permutation:
  assumes "consistentComparator (localeCompare env)" and "distinctKeys env files"
    and "mset files = mset files'"
  shows "map (contentTriple env) (sortBy (compareFiles env) files)
       = map (contentTriple env) (sortBy (compareFiles env) files')"
proof -
  let ?T = "contentTriple env"
  let ?le = "\<lambda>t u. compareTriples env t u \<le> 0"
  have cc: "consistentComparator (compareTriples env)"
    using assms(1) by (rule consistent_compareTriples)
  have "sortBy (compareTriples env) (map ?T files) = sortBy (compareTriples env) (map ?T files')"
  proof (rule sorted_wrt_same_elements [where le = ?le])
    show "sorted_wrt ?le (sortBy (compareTriples env) (map ?T files))"
      using cc by (rule sorted_sortBy)
    show "sorted_wrt ?le (sortBy (compareTriples env) (map ?T files'))"
      using cc by (rule sorted_sortBy)
    have "mset (map ?T files) = mset (map ?T files')"
      using assms(3) by (metis mset_map)
    then show "mset (sortBy (compareTriples env) (map ?T files))
        = mset (sortBy (compareTriples env) (map ?T files'))"
      by (simp add: mset_sortBy)
    fix t u
    assume "t \<in> set (sortBy (compareTriples env) (map ?T files))"
      and "u \<in> set (sortBy (compareTriples env) (map ?T files))"
      and le: "compareTriples env t u \<le> 0" "compareTriples env u t \<le> 0"
    then obtain a b where ab: "a \<in> set files" "b \<in> set files" "t = ?T a" "u = ?T b"
      by (auto simp: set_sortBy)
    have "compareTriples env t u = 0"
      using comparator_both [OF cc le] .
    then have "compareFiles env a b = 0"
      using ab by (simp add: compareFiles_triples)
    then show "t = u"
      using assms(2) ab unfolding distinctKeys_def by blast
  qed
  then show ?thesis
    by (simp add: map_sortBy [of "compareFiles env" "compareTriples env" "contentTriple env",
          OF compareFiles_triples])
qed

lemma computeMetaHash_permutation:
  assumes "consistentComparator (localeCompare env)" and "distinctKeys env files"
    and "mset files = mset files'"
  shows "computeMetaHash env files = computeMetaHash env files'"
  unfolding computeMetaHash_def
  using hashUpdates_triples [OF sorted_triples_permutation [OF assms]] by simp

text \<open>
  On a store, \<open>computeMetaHash\<close> computes what it computes on the sequence the array
  holds, and every array allocated before the call holds afterwards what it held before:
  the sort works on the copy.
\<close>

lemma computeMetaHashOnArray_result:
  "fst (computeMetaHashOnArray env r st) = computeMetaHash env (arrays st r)"
  by (simp add: computeMetaHashOnArray_def spreadArray_def sortArray_def computeMetaHash_def
      split: sum.splits)

lemma computeMetaHashOnArray_store:
  assumes "r < allocated st"
  shows "arrays (snd (computeMetaHashOnArray env q st)) r = arrays st r"
  using assms
  by (simp add: computeMetaHashOnArray_def spreadArray_def sortArray_def split: sum.splits)

lemma consistent_codeUnitCompare: "consistentComparator codeUnitCompare"
  unfolding consistentComparator_def codeUnitCompare_def by (auto split: if_splits)

lemma consistent_testPlatform: "consistentComparator (localeCompare testPlatform)"
  by (simp add: testPlatform_def consistent_codeUnitCompare)

text \<open>
  C1, as the specification states it, at two records with the same \<open>parentPath\<close> and
  \<open>name\<close> and different content: their sort keys compare equal, the stable sort keeps
  the order of the input, and the two orders feed different streams to the hash (here
  the digest is the stream itself).
\<close>

theorem computeMetaHash_permutation_counterexample:
  "mset [rootFile ''a'' (JBuffer ''x''), rootFile ''a'' (JBuffer ''y'')]
     = mset [rootFile ''a'' (JBuffer ''y''), rootFile ''a'' (JBuffer ''x'')] \<and>
   hashUpdates testPlatform
       (sortBy (compareFiles testPlatform)
          [rootFile ''a'' (JBuffer ''x''), rootFile ''a'' (JBuffer ''y'')])
     = Inr (''./:a:x'' @ [newline] @ ''./:a:y'' @ [newline]) \<and>
   hashUpdates testPlatform
       (sortBy (compareFiles testPlatform)
          [rootFile ''a'' (JBuffer ''y''), rootFile ''a'' (JBuffer ''x'')])
     = Inr (''./:a:y'' @ [newline] @ ''./:a:x'' @ [newline]) \<and>
   computeMetaHash testPlatform [rootFile ''a'' (JBuffer ''x''), rootFile ''a'' (JBuffer ''y'')]
     \<noteq> computeMetaHash testPlatform
         [rootFile ''a'' (JBuffer ''y''), rootFile ''a'' (JBuffer ''x'')]"
  by (simp add: computeMetaHash_def sortBy_def compareFiles_def sortKey_def testPlatform_def
      codeUnitCompare_def rootFile_def)

text \<open>
  C1 (amended): for every file-set in which records whose sort keys \<open>parentPath/name\<close>
  compare equal have the same parentPath, name and content, and every permutation of it,
  \<open>computeMetaHash\<close> returns the same result (the same digest, or the same failure),
  whatever the digest function and for every consistent comparison of strings; and the
  input sequence itself is sorted on a clone, not in place: the array the function is
  called on holds after the call the sequence it held before.
\<close>

theorem computeMetaHash_order_independent:
  assumes "consistentComparator (localeCompare env)" and "distinctKeys env files"
    and "mset files = mset files'"
    and "r < allocated st" and "arrays st r = files"
  shows "computeMetaHash env files = computeMetaHash env files' \<and>
         fst (computeMetaHashOnArray env r st) = computeMetaHash env files \<and>
         arrays (snd (computeMetaHashOnArray env r st)) r = files"
  using computeMetaHash_permutation [OF assms(1,2,3)]
    computeMetaHashOnArray_result [of env r st]
    computeMetaHashOnArray_store [OF assms(4), of env r] assms(5)
  by simp

theorem computeMetaHash_order_independent_witness:
  "consistentComparator (localeCompare testPlatform) \<and>
   distinctKeys testPlatform
     [\<lparr> name = ''b.txt'', parentPath = ''./sub'', path = ''./sub/b.txt'',
        data = JBuffer ''world'', options = None \<rparr>,
      rootFile ''a.txt'' (JBuffer ''hello''),
      \<lparr> name = ''a.txt'', parentPath = ''./'', path = ''a.txt'',
        data = JArray [JNum 104, JNum 101, JNum 108, JNum 108, JNum 111],
        options = None \<rparr>] \<and>
   computeMetaHash testPlatform
     [\<lparr> name = ''b.txt'', parentPath = ''./sub'', path = ''./sub/b.txt'',
        data = JBuffer ''world'', options = None \<rparr>,
      rootFile ''a.txt'' (JBuffer ''hello''),
      \<lparr> name = ''a.txt'', parentPath = ''./'', path = ''a.txt'',
        data = JArray [JNum 104, JNum 101, JNum 108, JNum 108, JNum 111],
        options = None \<rparr>]
   = computeMetaHash testPlatform
     [\<lparr> name = ''a.txt'', parentPath = ''./'', path = ''a.txt'',
        data = JArray [JNum 104, JNum 101, JNum 108, JNum 108, JNum 111],
        options = None \<rparr>,
      rootFile ''a.txt'' (JBuffer ''hello''),
      \<lparr> name = ''b.txt'', parentPath = ''./sub'', path = ''./sub/b.txt'',
        data = JBuffer ''world'', options = None \<rparr>] \<and>
   arrays
     (snd (computeMetaHashOnArray testPlatform 0
        \<lparr> arrays = (\<lambda>r. [])
            (0 := [\<lparr> name = ''b.txt'', parentPath = ''./sub'', path = ''./sub/b.txt'',
                      data = JBuffer ''world'', options = None \<rparr>,
                   rootFile ''a.txt'' (JBuffer ''hello''),
                   \<lparr> name = ''a.txt'', parentPath = ''./'', path = ''a.txt'',
                      data = JArray [JNum 104, JNum 101, JNum 108, JNum 108, JNum 111],
                      options = None \<rparr>]),
          allocated = 1 \<rparr>)) 0
   = [\<lparr> name = ''b.txt'', parentPath = ''./sub'', path = ''./sub/b.txt'',
         data = JBuffer ''world'', options = None \<rparr>,
      rootFile ''a.txt'' (JBuffer ''hello''),
      \<lparr> name = ''a.txt'', parentPath = ''./'', path = ''a.txt'',
         data = JArray [JNum 104, JNum 101, JNum 108, JNum 108, JNum 111],
         options = None \<rparr>]"
proof -
  let ?b = "\<lparr> name = ''b.txt'', parentPath = ''./sub'', path = ''./sub/b.txt'',
        data = JBuffer ''world'', options = None :: unit option \<rparr>"
  let ?a = "rootFile ''a.txt'' (JBuffer ''hello'')"
  let ?a' = "\<lparr> name = ''a.txt'', parentPath = ''./'', path = ''a.txt'',
        data = JArray [JNum 104, JNum 101, JNum 108, JNum 108, JNum 111],
        options = None :: unit option \<rparr>"
  let ?st = "\<lparr> arrays = (\<lambda>r. [])(0 := [?b, ?a, ?a']), allocated = 1 \<rparr>"
  have d: "distinctKeys testPlatform [?b, ?a, ?a']"
    by (simp add: distinctKeys_def compareFiles_def sortKey_def testPlatform_def
        codeUnitCompare_def rootFile_def contentTriple_def bufferFrom_def char_of_def)
  have m: "mset [?b, ?a, ?a'] = mset [?a', ?a, ?b]" by simp
  have r: "(0::nat) < allocated ?st" by simp
  have f: "arrays ?st 0 = [?b, ?a, ?a']" by simp
  show ?thesis
    using computeMetaHash_order_independent [OF consistent_testPlatform d m r f]
      consistent_testPlatform d by simp
qed

text \<open>A list is cut in one way only at the first occurrence of a separator.\<close>

lemma cut_at_separator:
  assumes "c \<notin> set xs" and "c \<notin> set xs'" and "xs @ c # ys = xs' @ c # ys'"
  shows "xs = xs' \<and> ys = ys'"
  using assms
proof (induction xs arbitrary: xs')
  case Nil
  then show ?case by (cases xs') auto
next
  case (Cons x xs)
  then show ?case by (cases xs') auto
qed

lemma hashUpdates_Cons_Inr:
  assumes "hashUpdates env (f # fs) = Inr s"
  obtains d rest where "normalizeBuffer env (data f) = Inr d"
    and "hashUpdates env fs = Inr rest"
    and "s = (parentPath f @ '':'' @ name f @ '':'' @ d) @ newline # rest"
  using assms by (auto split: sum.splits)

text \<open>
  On records free of delimiters, the stream fed to the hash determines the sequence of
  (parentPath, name, content) triples.
\<close>

lemma hashUpdates_injective:
  assumes "hashUpdates env A = Inr s" and "hashUpdates env B = Inr s"
    and "\<forall>f \<in> set A. delimiterFree env f" and "\<forall>f \<in> set B. delimiterFree env f"
  shows "map (contentTriple env) A = map (contentTriple env) B"
  using assms
proof (induction A arbitrary: B s)
  case Nil
  then have "s = []" by simp
  with Nil.prems(2) show ?case
    by (cases B) (auto split: sum.splits)
next
  case (Cons a A')
  from Cons.prems(1) obtain da ra where
    a: "normalizeBuffer env (data a) = Inr da" "hashUpdates env A' = Inr ra"
      "s = (parentPath a @ '':'' @ name a @ '':'' @ da) @ newline # ra"
    by (rule hashUpdates_Cons_Inr)
  from a(3) Cons.prems(2) obtain b B' where B: "B = b # B'"
    by (cases B) auto
  from Cons.prems(2) B have "hashUpdates env (b # B') = Inr s" by simp
  then obtain db rb where
    b: "normalizeBuffer env (data b) = Inr db" "hashUpdates env B' = Inr rb"
      "s = (parentPath b @ '':'' @ name b @ '':'' @ db) @ newline # rb"
    by (rule hashUpdates_Cons_Inr)
  have fa: "delimiterFree env a" and fb: "delimiterFree env b"
    using Cons.prems(3,4) B by simp_all
  have "parentPath a @ CHR '':'' # (name a @ CHR '':'' # (da @ newline # ra))
      = parentPath b @ CHR '':'' # (name b @ CHR '':'' # (db @ newline # rb))"
    using a(3) b(3) by simp
  then have pp: "parentPath a = parentPath b"
    and tail: "name a @ CHR '':'' # (da @ newline # ra) = name b @ CHR '':'' # (db @ newline # rb)"
    using cut_at_separator [of "CHR '':''" "parentPath a" "parentPath b"] fa fb
    by (simp_all add: delimiterFree_def)
  from tail have nm: "name a = name b" and tail': "da @ newline # ra = db @ newline # rb"
    using cut_at_separator [of "CHR '':''" "name a" "name b"] fa fb
    by (simp_all add: delimiterFree_def)
  from tail' have dd: "da = db" and rest: "ra = rb"
    using cut_at_separator [of newline da db ra rb] fa fb a(1) b(1)
    by (simp_all add: delimiterFree_def)
  have "contentTriple env a = contentTriple env b"
    using pp nm dd a(1) b(1) by (simp add: contentTriple_def)
  moreover have "map (contentTriple env) A' = map (contentTriple env) B'"
    using Cons.IH [of ra B'] a(2) b(2) rest Cons.prems(3,4) B by simp
  ultimately show ?case
    using B by simp
qed

text \<open>
  On two sequences whose fields have the same lengths, the stream determines the triples
  as well, whatever bytes the fields hold.
\<close>

lemma hashUpdates_injective_same_lengths:
  assumes "hashUpdates env A = Inr s" and "hashUpdates env B = Inr s"
    and "sameLengths env A B"
  shows "map (contentTriple env) A = map (contentTriple env) B"
  using assms
proof (induction A arbitrary: B s)
  case Nil
  then show ?case by (simp add: sameLengths_def)
next
  case (Cons a A')
  from Cons.prems(3) obtain b B' where B: "B = b # B'"
    and len: "length (parentPath a) = length (parentPath b)"
      "length (name a) = length (name b)" "contentLength env a = contentLength env b"
    and others: "sameLengths env A' B'"
    by (auto simp: sameLengths_def list_all2_Cons1)
  from Cons.prems(1) obtain da ra where
    a: "normalizeBuffer env (data a) = Inr da" "hashUpdates env A' = Inr ra"
      "s = (parentPath a @ '':'' @ name a @ '':'' @ da) @ newline # ra"
    by (rule hashUpdates_Cons_Inr)
  from Cons.prems(2) B have "hashUpdates env (b # B') = Inr s" by simp
  then obtain db rb where
    b: "normalizeBuffer env (data b) = Inr db" "hashUpdates env B' = Inr rb"
      "s = (parentPath b @ '':'' @ name b @ '':'' @ db) @ newline # rb"
    by (rule hashUpdates_Cons_Inr)
  have ld: "length da = length db"
    using len(3) a(1) b(1) by (simp add: contentLength_def)
  have "parentPath a @ (CHR '':'' # name a @ CHR '':'' # da @ newline # ra)
      = parentPath b @ (CHR '':'' # name b @ CHR '':'' # db @ newline # rb)"
    using a(3) b(3) by simp
  then have pp: "parentPath a = parentPath b"
    and t1: "name a @ (CHR '':'' # da @ newline # ra) = name b @ (CHR '':'' # db @ newline # rb)"
    using len(1) by simp_all
  from t1 have nm: "name a = name b" and t2: "da @ (newline # ra) = db @ (newline # rb)"
    using len(2) by simp_all
  from t2 have dd: "da = db" and rest: "ra = rb"
    using ld by simp_all
  have "contentTriple env a = contentTriple env b"
    using pp nm dd a(1) b(1) by (simp add: contentTriple_def)
  moreover have "map (contentTriple env) A' = map (contentTriple env) B'"
    using Cons.IH [of ra B'] a(2) b(2) rest others by simp
  ultimately show ?case
    using B by simp
qed

text \<open>
  On two sequences that are one record apart at most, the stream determines the triples
  too: what precedes and what follows the record is the same in both streams.
\<close>

lemma hashUpdates_injective_one_apart:
  assumes "hashUpdates env A = Inr s" and "hashUpdates env B = Inr s"
    and "oneRecordApart env A B"
  shows "map (contentTriple env) A = map (contentTriple env) B"
  using assms
proof (induction env A B arbitrary: s rule: oneRecordApart.induct)
  case (1 env)
  then show ?case by simp
next
  case (2 env a A' b B')
  from "2.prems"(1) obtain da ra where
    a: "normalizeBuffer env (data a) = Inr da" "hashUpdates env A' = Inr ra"
      "s = (parentPath a @ '':'' @ name a @ '':'' @ da) @ newline # ra"
    by (rule hashUpdates_Cons_Inr)
  from "2.prems"(2) obtain db rb where
    b: "normalizeBuffer env (data b) = Inr db" "hashUpdates env B' = Inr rb"
      "s = (parentPath b @ '':'' @ name b @ '':'' @ db) @ newline # rb"
    by (rule hashUpdates_Cons_Inr)
  from "2.prems"(3) consider
      (same) "contentTriple env a = contentTriple env b" "oneRecordApart env A' B'"
    | (here) "length (parentPath a) = length (parentPath b)" "length (name a) = length (name b)"
        "map (contentTriple env) A' = map (contentTriple env) B'"
    by auto
  then show ?case
  proof cases
    case same
    then have "parentPath a = parentPath b" "name a = name b" "da = db"
      using a(1) b(1) by (simp_all add: contentTriple_def)
    then have "ra = rb" using a(3) b(3) by simp
    then have "map (contentTriple env) A' = map (contentTriple env) B'"
      using "2.IH" [of ra] same a(2) b(2) by simp
    with same show ?thesis by simp
  next
    case here
    have "ra = rb"
      using hashUpdates_triples [OF here(3)] a(2) b(2) by simp
    have "parentPath a @ (CHR '':'' # name a @ CHR '':'' # da @ newline # ra)
        = parentPath b @ (CHR '':'' # name b @ CHR '':'' # db @ newline # rb)"
      using a(3) b(3) by simp
    then have pp: "parentPath a = parentPath b"
      and t1: "name a @ (CHR '':'' # da @ newline # ra) = name b @ (CHR '':'' # db @ newline # rb)"
      using here(1) by simp_all
    from t1 have nm: "name a = name b" and t2: "da @ (newline # ra) = db @ (newline # rb)"
      using here(2) by simp_all
    from t2 have "da = db" using \<open>ra = rb\<close> by simp
    then have "contentTriple env a = contentTriple env b"
      using pp nm a(1) b(1) by (simp add: contentTriple_def)
    with here(3) show ?thesis by simp
  qed
qed simp_all

text \<open>
  C5, as the specification states it, at a one-record file-set whose content holds a
  newline and a two-record file-set: the sorted (parentPath, name, content) sequences
  differ, the streams fed to the hash are the same bytes, and so the digests are equal
  (here, with the collision-free digest that returns the stream itself).
\<close>

theorem computeMetaHash_stream_collision_counterexample:
  "map (contentTriple testPlatform)
     (sortBy (compareFiles testPlatform)
        [rootFile ''a'' (JBuffer (''x'' @ [newline] @ ''./:b:y''))])
     \<noteq> map (contentTriple testPlatform)
         (sortBy (compareFiles testPlatform)
            [rootFile ''a'' (JBuffer ''x''), rootFile ''b'' (JBuffer ''y'')]) \<and>
   computeMetaHash testPlatform [rootFile ''a'' (JBuffer (''x'' @ [newline] @ ''./:b:y''))]
     = computeMetaHash testPlatform
         [rootFile ''a'' (JBuffer ''x''), rootFile ''b'' (JBuffer ''y'')]"
  by (simp add: computeMetaHash_def sortBy_def compareFiles_def sortKey_def testPlatform_def
      codeUnitCompare_def rootFile_def contentTriple_def)

text \<open>
  C5 (amended): for every pair of file-sets such that no \<open>parentPath\<close> and no \<open>name\<close>
  holds a colon and no normalised content holds a newline byte, or such that the two
  sorted sequences have the same number of records with, record by record, fields of the
  same lengths (the same paths and contents of the same lengths, for one), or such that
  the two sorted sequences are the same outside one record whose parentPath and name have
  the same lengths in both (one file with its content changed, for one): if the sorted
  (parentPath, name, content) sequences differ in any file's path, name or byte content
  then \<open>computeMetaHash\<close> produces different digests, the hash being modelled as
  collision-free. Stated contrapositively, and with the collision spelled out: equal
  digests come from equal sequences, or else from two different streams on which the hash
  collides.
\<close>

theorem computeMetaHash_sensitive:
  assumes "(\<forall>f \<in> set A \<union> set B. delimiterFree env f) \<or>
           sameLengths env (sortBy (compareFiles env) A) (sortBy (compareFiles env) B) \<or>
           oneRecordApart env (sortBy (compareFiles env) A) (sortBy (compareFiles env) B)"
    and "computeMetaHash env A = Inr digest" and "computeMetaHash env B = Inr digest"
  shows "map (contentTriple env) (sortBy (compareFiles env) A)
           = map (contentTriple env) (sortBy (compareFiles env) B) \<or>
         (\<exists>s t. hashUpdates env (sortBy (compareFiles env) A) = Inr s \<and>
                hashUpdates env (sortBy (compareFiles env) B) = Inr t \<and>
                s \<noteq> t \<and> sha256 env s = sha256 env t)"
proof -
  from assms(2) obtain sa where sa: "hashUpdates env (sortBy (compareFiles env) A) = Inr sa"
    and da: "digest = sha256 env sa"
    by (auto simp: computeMetaHash_def split: sum.splits)
  from assms(3) obtain sb where sb: "hashUpdates env (sortBy (compareFiles env) B) = Inr sb"
    and db: "digest = sha256 env sb"
    by (auto simp: computeMetaHash_def split: sum.splits)
  show ?thesis
  proof (cases "sa = sb")
    case True
    from assms(1) consider
        (free) "\<forall>f \<in> set A \<union> set B. delimiterFree env f"
      | (lengths) "sameLengths env (sortBy (compareFiles env) A) (sortBy (compareFiles env) B)"
      | (apart) "oneRecordApart env (sortBy (compareFiles env) A) (sortBy (compareFiles env) B)"
      by blast
    then have "map (contentTriple env) (sortBy (compareFiles env) A)
        = map (contentTriple env) (sortBy (compareFiles env) B)"
    proof cases
      case free
      then have "\<forall>f \<in> set (sortBy (compareFiles env) A). delimiterFree env f"
        and "\<forall>f \<in> set (sortBy (compareFiles env) B). delimiterFree env f"
        by (simp_all add: set_sortBy)
      then show ?thesis
        using hashUpdates_injective sa sb True by blast
    next
      case lengths
      then show ?thesis
        using hashUpdates_injective_same_lengths sa sb True by blast
    next
      case apart
      then show ?thesis
        using hashUpdates_injective_one_apart sa sb True by blast
    qed
    then show ?thesis by simp
  next
    case False
    with sa sb da db show ?thesis by auto
  qed
qed

theorem computeMetaHash_sensitive_witness:
  "delimiterFree testPlatform (rootFile ''a'' (JBuffer ''x'')) \<and>
   delimiterFree testPlatform (rootFile ''b'' (JArray [JNum 121])) \<and>
   delimiterFree testPlatform (rootFile ''b'' (JBuffer ''y'')) \<and>
   delimiterFree testPlatform (rootFile ''a'' (JArray [JNum 120])) \<and>
   computeMetaHash testPlatform [rootFile ''a'' (JBuffer ''x''), rootFile ''b'' (JArray [JNum 121])]
     = Inr (''./:a:x'' @ [newline] @ ''./:b:y'' @ [newline]) \<and>
   computeMetaHash testPlatform [rootFile ''b'' (JBuffer ''y''), rootFile ''a'' (JArray [JNum 120])]
     = Inr (''./:a:x'' @ [newline] @ ''./:b:y'' @ [newline]) \<and>
   map (contentTriple testPlatform)
     (sortBy (compareFiles testPlatform)
        [rootFile ''a'' (JBuffer ''x''), rootFile ''b'' (JArray [JNum 121])])
   = map (contentTriple testPlatform)
     (sortBy (compareFiles testPlatform)
        [rootFile ''b'' (JBuffer ''y''), rootFile ''a'' (JArray [JNum 120])]) \<and>
   sameLengths testPlatform
     (sortBy (compareFiles testPlatform) [rootFile ''n:1'' (JBuffer (''k: v'' @ [newline] @ ''l''))])
     (sortBy (compareFiles testPlatform)
        [rootFile ''n:1'' (JArray [JNum 107, JNum 58, JNum 32, JNum 118, JNum 10, JNum 108])]) \<and>
   computeMetaHash testPlatform [rootFile ''n:1'' (JBuffer (''k: v'' @ [newline] @ ''l''))]
     = Inr (''./:n:1:k: v'' @ [newline] @ ''l'' @ [newline]) \<and>
   computeMetaHash testPlatform
       [rootFile ''n:1'' (JArray [JNum 107, JNum 58, JNum 32, JNum 118, JNum 10, JNum 108])]
     = Inr (''./:n:1:k: v'' @ [newline] @ ''l'' @ [newline]) \<and>
   map (contentTriple testPlatform)
     (sortBy (compareFiles testPlatform) [rootFile ''n:1'' (JBuffer (''k: v'' @ [newline] @ ''l''))])
   = map (contentTriple testPlatform)
     (sortBy (compareFiles testPlatform)
        [rootFile ''n:1'' (JArray [JNum 107, JNum 58, JNum 32, JNum 118, JNum 10, JNum 108])]) \<and>
   oneRecordApart testPlatform
     (sortBy (compareFiles testPlatform)
        [rootFile ''a'' (JBuffer ''x''), rootFile ''n:1'' (JBuffer '':'')])
     (sortBy (compareFiles testPlatform)
        [rootFile ''a'' (JBuffer ''x''), rootFile ''n:2'' (JBuffer '':'')]) \<and>
   computeMetaHash testPlatform [rootFile ''a'' (JBuffer ''x''), rootFile ''n:1'' (JBuffer '':'')]
     \<noteq> computeMetaHash testPlatform
         [rootFile ''a'' (JBuffer ''x''), rootFile ''n:2'' (JBuffer '':'')]"
proof -
  let ?A = "[rootFile ''a'' (JBuffer ''x''), rootFile ''b'' (JArray [JNum 121])]"
  let ?B = "[rootFile ''b'' (JBuffer ''y''), rootFile ''a'' (JArray [JNum 120])]"
  let ?C = "[rootFile ''n:1'' (JBuffer (''k: v'' @ [newline] @ ''l''))]"
  let ?D = "[rootFile ''n:1'' (JArray [JNum 107, JNum 58, JNum 32, JNum 118, JNum 10, JNum 108])]"
  have h1: "\<forall>f \<in> set ?A \<union> set ?B. delimiterFree testPlatform f"
    by (simp add: delimiterFree_def rootFile_def newline_def bufferFrom_def char_of_def)
  have h2: "\<And>s t. sha256 testPlatform s = sha256 testPlatform t \<Longrightarrow> s = t"
    by (simp add: testPlatform_def)
  have h3: "computeMetaHash testPlatform ?A
      = Inr (''./:a:x'' @ [newline] @ ''./:b:y'' @ [newline])"
    by (simp add: computeMetaHash_def sortBy_def compareFiles_def sortKey_def testPlatform_def
        codeUnitCompare_def rootFile_def bufferFrom_def char_of_def)
  have h4: "computeMetaHash testPlatform ?B
      = Inr (''./:a:x'' @ [newline] @ ''./:b:y'' @ [newline])"
    by (simp add: computeMetaHash_def sortBy_def compareFiles_def sortKey_def testPlatform_def
        codeUnitCompare_def rootFile_def bufferFrom_def char_of_def)
  have k1: "sameLengths testPlatform (sortBy (compareFiles testPlatform) ?C)
      (sortBy (compareFiles testPlatform) ?D)"
    by (simp add: sameLengths_def contentLength_def sortBy_def rootFile_def bufferFrom_def)
  have k3: "computeMetaHash testPlatform ?C
      = Inr (''./:n:1:k: v'' @ [newline] @ ''l'' @ [newline])"
    by (simp add: computeMetaHash_def sortBy_def rootFile_def testPlatform_def)
  have k4: "computeMetaHash testPlatform ?D
      = Inr (''./:n:1:k: v'' @ [newline] @ ''l'' @ [newline])"
    by (simp add: computeMetaHash_def sortBy_def rootFile_def testPlatform_def bufferFrom_def
        char_of_def newline_def)
  have first: "map (contentTriple testPlatform) (sortBy (compareFiles testPlatform) ?A)
      = map (contentTriple testPlatform) (sortBy (compareFiles testPlatform) ?B)"
    using computeMetaHash_sensitive [OF disjI1 [OF h1] h3 h4] h2 by auto
  have second: "map (contentTriple testPlatform) (sortBy (compareFiles testPlatform) ?C)
      = map (contentTriple testPlatform) (sortBy (compareFiles testPlatform) ?D)"
    using computeMetaHash_sensitive [OF disjI2 [OF disjI1 [OF k1]] k3 k4] h2 by auto
  let ?E = "[rootFile ''a'' (JBuffer ''x''), rootFile ''n:1'' (JBuffer '':'')]"
  let ?F = "[rootFile ''a'' (JBuffer ''x''), rootFile ''n:2'' (JBuffer '':'')]"
  have m1: "oneRecordApart testPlatform (sortBy (compareFiles testPlatform) ?E)
      (sortBy (compareFiles testPlatform) ?F)"
    by (simp add: sortBy_def compareFiles_def sortKey_def testPlatform_def codeUnitCompare_def
        rootFile_def contentTriple_def)
  have m2: "map (contentTriple testPlatform) (sortBy (compareFiles testPlatform) ?E)
      \<noteq> map (contentTriple testPlatform) (sortBy (compareFiles testPlatform) ?F)"
    by (simp add: sortBy_def compareFiles_def sortKey_def testPlatform_def codeUnitCompare_def
        rootFile_def contentTriple_def)
  have third: "computeMetaHash testPlatform ?E \<noteq> computeMetaHash testPlatform ?F"
  proof
    assume eq: "computeMetaHash testPlatform ?E = computeMetaHash testPlatform ?F"
    obtain digest where dg: "computeMetaHash testPlatform ?F = Inr digest"
      by (simp add: computeMetaHash_def sortBy_def rootFile_def compareFiles_def sortKey_def
          testPlatform_def codeUnitCompare_def)
    from computeMetaHash_sensitive [OF disjI2 [OF disjI2 [OF m1]] _ dg] eq dg m2 h2
    show False by auto
  qed
  have dA: "delimiterFree testPlatform (rootFile ''a'' (JBuffer ''x''))"
    "delimiterFree testPlatform (rootFile ''b'' (JArray [JNum 121]))"
    "delimiterFree testPlatform (rootFile ''b'' (JBuffer ''y''))"
    "delimiterFree testPlatform (rootFile ''a'' (JArray [JNum 120]))"
    using h1 by simp_all
  show ?thesis
    using dA h3 h4 first k1 k3 k4 second m1 third by (intro conjI)
qed

section \<open>Properties of stripBasePath\<close>

lemma splitPath_no_separator: "\<forall>s \<in> set (splitPath p). CHR ''/'' \<notin> set s"
proof (induction p)
  case Nil
  then show ?case by simp
next
  case (Cons c cs)
  then show ?case
    by (cases "splitPath cs") (auto split: if_splits)
qed

lemma normalizeSegments_subset:
  "set (normalizeSegments allow res xs) \<subseteq> set res \<union> set xs \<union> {''..''}"
proof (induction allow res xs rule: normalizeSegments.induct)
  case (1 allow res)
  show ?case by auto
next
  case (2 allow res s ss)
  have bl: "set (butlast res) \<subseteq> set res"
    by (auto dest: in_set_butlastD)
  consider (skip) "s = [] \<or> s = ''.''"
    | (pop) "s = ''..''" "res \<noteq> [] \<and> last res \<noteq> ''..''"
    | (up) "s = ''..''" "\<not> (res \<noteq> [] \<and> last res \<noteq> ''..'')" "allow"
    | (drop) "s = ''..''" "\<not> (res \<noteq> [] \<and> last res \<noteq> ''..'')" "\<not> allow"
    | (keep) "\<not> (s = [] \<or> s = ''.'')" "s \<noteq> ''..''"
    by blast
  then show ?case
  proof cases
    case skip
    with "2.IH"(1) show ?thesis by auto
  next
    case pop
    with "2.IH"(2) bl show ?thesis by auto
  next
    case up
    with "2.IH"(3) show ?thesis by auto
  next
    case drop
    with "2.IH"(4) show ?thesis by auto
  next
    case keep
    with "2.IH"(5) show ?thesis by auto
  qed
qed

lemma normalizeSegments_nonempty:
  "[] \<notin> set res \<Longrightarrow> [] \<notin> set (normalizeSegments allow res xs)"
proof (induction allow res xs rule: normalizeSegments.induct)
  case (1 allow res)
  then show ?case by simp
next
  case (2 allow res s ss)
  have bl: "[] \<notin> set (butlast res)"
    using "2.prems" by (auto dest: in_set_butlastD)
  consider (skip) "s = [] \<or> s = ''.''"
    | (pop) "s = ''..''" "res \<noteq> [] \<and> last res \<noteq> ''..''"
    | (up) "s = ''..''" "\<not> (res \<noteq> [] \<and> last res \<noteq> ''..'')" "allow"
    | (drop) "s = ''..''" "\<not> (res \<noteq> [] \<and> last res \<noteq> ''..'')" "\<not> allow"
    | (keep) "\<not> (s = [] \<or> s = ''.'')" "s \<noteq> ''..''"
    by blast
  then show ?case
  proof cases
    case skip
    with "2.IH"(1) "2.prems" show ?thesis by auto
  next
    case pop
    with "2.IH"(2) bl show ?thesis by auto
  next
    case up
    with "2.IH"(3) "2.prems" show ?thesis by auto
  next
    case drop
    with "2.IH"(4) "2.prems" show ?thesis by auto
  next
    case keep
    with "2.IH"(5) "2.prems" show ?thesis by auto
  qed
qed

text \<open>The segments of a resolved path are not empty and hold no slash.\<close>

lemma resolveSegments_wellformed:
  "\<forall>s \<in> set (resolveSegments env p). s \<noteq> [] \<and> CHR ''/'' \<notin> set s"
proof
  fix s
  assume s: "s \<in> set (resolveSegments env p)"
  let ?q = "if isAbsolute p then p else cwd env @ ''/'' @ p"
  from s have "s \<in> set (normalizeSegments False [] (splitPath ?q))"
    by (simp add: resolveSegments_def)
  then have "s \<noteq> []" and "s \<in> set (splitPath ?q) \<or> s = ''..''"
    using normalizeSegments_nonempty [of "[]" False "splitPath ?q"]
      normalizeSegments_subset [of False "[]" "splitPath ?q"] by auto
  then show "s \<noteq> [] \<and> CHR ''/'' \<notin> set s"
    using splitPath_no_separator [of ?q] by auto
qed

lemma joinSegments_Cons:
  "joinSegments (x # xs) = (if xs = [] then x else x @ CHR ''/'' # joinSegments xs)"
  by (cases xs) simp_all

lemma joinSegments_injective:
  assumes "\<forall>s \<in> set xs. s \<noteq> [] \<and> CHR ''/'' \<notin> set s"
    and "\<forall>s \<in> set ys. s \<noteq> [] \<and> CHR ''/'' \<notin> set s"
    and "joinSegments xs = joinSegments ys"
  shows "xs = ys"
  using assms
proof (induction xs arbitrary: ys)
  case Nil
  then show ?case
    by (cases ys) (auto simp: joinSegments_Cons split: if_splits)
next
  case (Cons x xs')
  show ?case
  proof (cases ys)
    case Nil
    with Cons.prems show ?thesis
      by (auto simp: joinSegments_Cons split: if_splits)
  next
    case (Cons y ys')
    have gx: "CHR ''/'' \<notin> set x" and gy: "CHR ''/'' \<notin> set y"
      using Cons.prems(1,2) Cons by simp_all
    have eq: "joinSegments (x # xs') = joinSegments (y # ys')"
      using Cons.prems(3) Cons by simp
    show ?thesis
    proof (cases "xs' = []")
      case True
      then have "ys' = []"
        using eq gx by (auto simp: joinSegments_Cons split: if_splits)
      with True eq Cons show ?thesis by simp
    next
      case False
      then have ne: "ys' \<noteq> []"
        using eq gy by (auto simp: joinSegments_Cons split: if_splits)
      with False eq have "x @ CHR ''/'' # joinSegments xs' = y @ CHR ''/'' # joinSegments ys'"
        by (simp add: joinSegments_Cons)
      then have "x = y" and "joinSegments xs' = joinSegments ys'"
        using cut_at_separator [OF gx gy] by simp_all
      moreover have "xs' = ys'"
        using Cons.IH [of ys'] Cons.prems(1,2) Cons \<open>joinSegments xs' = joinSegments ys'\<close>
        by simp
      ultimately show ?thesis using Cons by simp
    qed
  qed
qed

lemma commonLength_le: "commonLength xs ys \<le> length xs"
  by (induction xs ys rule: commonLength.induct) simp_all

lemma commonLength_full:
  "commonLength xs ys = length xs \<Longrightarrow> take (length xs) ys = xs"
  by (induction xs ys rule: commonLength.induct) (simp_all split: if_splits)

text \<open>
  The check is safe: whenever \<open>fullPath\<close> is not under \<open>basePath\<close>, \<open>stripBasePath\<close>
  fails. (The converse is what fails, see C3.)
\<close>

lemma stripBasePath_rejects_outside:
  assumes "\<not> underBase env fullPath basePath"
  shows "stripBasePath env fullPath basePath = Inl (NotUnderBasePath fullPath basePath)"
proof -
  let ?B = "resolveSegments env basePath"
  let ?F = "resolveSegments env fullPath"
  have ne: "?B \<noteq> ?F"
    using assms by (auto simp: underBase_def)
  then have "basePath \<noteq> fullPath" by auto
  moreover have "resolve env basePath \<noteq> resolve env fullPath"
  proof
    assume "resolve env basePath = resolve env fullPath"
    then have "joinSegments ?B = joinSegments ?F" by (simp add: resolve_def)
    then have "?B = ?F"
      using joinSegments_injective resolveSegments_wellformed by blast
    with ne show False by simp
  qed
  ultimately have rel: "relative env basePath fullPath =
      joinSegments (replicate (length ?B - commonLength ?B ?F) ''..'' @
                    drop (commonLength ?B ?F) ?F)"
    by (simp add: relative_def Let_def)
  have "commonLength ?B ?F \<noteq> length ?B"
    using commonLength_full [of ?B ?F] assms by (auto simp: underBase_def)
  then have "commonLength ?B ?F < length ?B"
    using commonLength_le [of ?B ?F] by simp
  then obtain k where "length ?B - commonLength ?B ?F = Suc k"
    by (metis Suc_diff_Suc)
  then have "relative env basePath fullPath =
      joinSegments (''..'' # (replicate k ''..'' @ drop (commonLength ?B ?F) ?F))"
    using rel by simp
  then have "startsWith (relative env basePath fullPath) ''..''"
    by (simp add: joinSegments_Cons startsWith_def)
  then show ?thesis
    by (simp add: stripBasePath_def)
qed

text \<open>
  C3: \<open>/a/b/..foo\<close> is under \<open>/a/b\<close> (the relative path is the single segment
  \<open>..foo\<close>, which is no parent-directory segment), and \<open>stripBasePath\<close> fails on it all the
  same: it tests the first two characters of the relative path, not its first segment.
  The two examples of the specification behave as it says.
\<close>

theorem stripBasePath_rejects_dotdot_prefixed_name:
  "underBase testPlatform ''/a/b/..foo'' ''/a/b'' \<and>
   relative testPlatform ''/a/b'' ''/a/b/..foo'' = ''..foo'' \<and>
   stripBasePath testPlatform ''/a/b/..foo'' ''/a/b''
     = Inl (NotUnderBasePath ''/a/b/..foo'' ''/a/b'') \<and>
   stripBasePath testPlatform ''/a/b/../../etc/passwd'' ''/a/b''
     = Inl (NotUnderBasePath ''/a/b/../../etc/passwd'' ''/a/b'') \<and>
   stripBasePath testPlatform ''/a/b/c.txt'' ''/a/b'' = Inr ''c.txt''"
  by (simp add: underBase_def stripBasePath_def relative_def resolve_def resolveSegments_def
      isAbsolute_def startsWith_def posixNormalize_def normalizeString_def
      trailingSeparator_def)

section \<open>Properties of checkFolderExists\<close>

text \<open>
  C2, as the specification states it, at a path that exists and is a regular file:
  \<open>stat\<close> succeeds, \<open>isDirectory()\<close> is false, and \<open>checkFolderExists\<close> returns false
  where the claim has it fail.
\<close>

theorem checkFolderExists_regular_file_counterexample:
  "fst (fs_stat (diskFs testPlatform :: (node, unit) fsModule) ''/work/a''
          (DirNode [(''work'', DirNode [(''a'', FileNode ''x'')])])) = Inr StatsFile \<and>
   fst (checkFolderExists (diskFs testPlatform :: (node, unit) fsModule) ''/work/a''
          (DirNode [(''work'', DirNode [(''a'', FileNode ''x'')])])) = Inr False"
  by (simp add: checkFolderExists_def diskFs_def resolveSegments_def isAbsolute_def)

text \<open>
  C2 (amended): for every path, \<open>checkFolderExists\<close> returns true exactly when \<open>stat\<close>
  reports a directory; it returns false exactly when the path does not exist (\<open>stat\<close>
  fails with the code ENOENT) or exists and is not a directory (a regular file, for one);
  and it fails, with the error of \<open>stat\<close> as thrown, exactly when \<open>stat\<close> fails with any
  other error. It leaves the disk as \<open>stat\<close> leaves it.
\<close>

theorem checkFolderExists_outcomes:
  "(fst (checkFolderExists fs p s) = Inr True) = (fst (fs_stat fs p s) = Inr StatsDirectory) \<and>
   (fst (checkFolderExists fs p s) = Inr False) =
     ((\<exists>st. fst (fs_stat fs p s) = Inr st \<and> st \<noteq> StatsDirectory) \<or>
      (\<exists>err. fst (fs_stat fs p s) = Inl err \<and> errorCode err = Some ''ENOENT'')) \<and>
   (fst (checkFolderExists fs p s) = Inl e) =
     (fst (fs_stat fs p s) = Inl e \<and> errorCode e \<noteq> Some ''ENOENT'') \<and>
   snd (checkFolderExists fs p s) = snd (fs_stat fs p s)"
proof (cases "fs_stat fs p s")
  case (Pair r s')
  show ?thesis
  proof (cases r)
    case (Inl err)
    with Pair show ?thesis
      by (auto simp: checkFolderExists_def)
  next
    case (Inr st)
    with Pair show ?thesis
      by (auto simp: checkFolderExists_def)
  qed
qed

section \<open>Properties of writeFiles\<close>




















lemma writeAll_normalizes:
  assumes "writeAll env fs workDir files s = (Inr u, s')"
  shows "\<forall>f \<in> set files. \<not> notObject (data f)"
  using assms
proof (induction files arbitrary: s)
  case Nil
  then show ?case by simp
next
  case (Cons g gs)
  from Cons.prems obtain t where
    one: "writeOne env fs workDir g s = (Inr (), t)" and
    others: "writeAll env fs workDir gs t = (Inr u, s')"
    by (auto split: prod.splits sum.splits)
  from one have "\<exists>d. normalizeBuffer env (data g) = Inr d"
    by (auto simp: writeOne_def Let_def split: prod.splits sum.splits)
  then have "\<not> notObject (data g)"
    using normalizeBuffer_returns_iff [of env "data g"] by simp
  with Cons.IH [OF others] show ?case by simp
qed

lemma hashUpdates_succeeds:
  assumes "\<forall>f \<in> set files. \<not> notObject (data f)"
  shows "\<exists>stream. hashUpdates env files = Inr stream"
  using assms
proof (induction files)
  case Nil
  then show ?case by simp
next
  case (Cons g gs)
  then obtain d rest where "normalizeBuffer env (data g) = Inr d"
    and "hashUpdates env gs = Inr rest"
    using normalizeBuffer_returns_iff [of env "data g"] by auto
  then show ?case by simp
qed

text \<open>
  C7: for every working directory and every file-set on which all writes succeed,
  \<open>writeFiles\<close> returns exactly \<open>computeMetaHash\<close> of the records it was given, which is a
  digest and not a failure; that digest is a function of the platform and of the records
  alone, so no state of the disk enters it.
\<close>

theorem writeFiles_returns_computeMetaHash:
  assumes "ensureFolder fs workDir s0 = (Inr u, s1)"
    and "writeAll env fs workDir files s1 = (Inr u', s2)"
  shows "\<exists>digest. computeMetaHash env files = Inr digest \<and>
           writeFiles env fs workDir files s0 = (Inr digest, s2)"
proof -
  have "\<forall>f \<in> set (sortBy (compareFiles env) files). \<not> notObject (data f)"
    using writeAll_normalizes [OF assms(2)] by (simp add: set_sortBy)
  then obtain stream where "hashUpdates env (sortBy (compareFiles env) files) = Inr stream"
    using hashUpdates_succeeds by blast
  then have "computeMetaHash env files = Inr (sha256 env stream)"
    by (simp add: computeMetaHash_def)
  moreover have "writeFiles env fs workDir files s0 = (computeMetaHash env files, s2)"
    using assms by (simp add: writeFiles_def)
  ultimately show ?thesis by simp
qed

theorem writeFiles_returns_computeMetaHash_witness:
  "ensureFolder (diskFs testPlatform :: (node, unit) fsModule) ''/work'' (DirNode [])
     = (Inr (), DirNode [(''work'', DirNode [])]) \<and>
   writeAll testPlatform (diskFs testPlatform) ''/work''
       [\<lparr> name = ''b.txt'', parentPath = ''./sub'', path = ''./sub/b.txt'',
          data = JBuffer ''world'', options = None \<rparr>,
        rootFile ''a.txt'' (JBuffer ''hello'')]
       (DirNode [(''work'', DirNode [])])
     = (Inr (), DirNode [(''work'', DirNode [(''sub'', DirNode [(''b.txt'', FileNode ''world'')]),
                                              (''a.txt'', FileNode ''hello'')])]) \<and>
   (\<exists>digest.
      computeMetaHash testPlatform
        [\<lparr> name = ''b.txt'', parentPath = ''./sub'', path = ''./sub/b.txt'',
           data = JBuffer ''world'', options = None \<rparr>,
         rootFile ''a.txt'' (JBuffer ''hello'')] = Inr digest \<and>
      writeFiles testPlatform (diskFs testPlatform) ''/work''
        [\<lparr> name = ''b.txt'', parentPath = ''./sub'', path = ''./sub/b.txt'',
           data = JBuffer ''world'', options = None \<rparr>,
         rootFile ''a.txt'' (JBuffer ''hello'')]
        (DirNode [])
      = (Inr digest,
         DirNode [(''work'', DirNode [(''sub'', DirNode [(''b.txt'', FileNode ''world'')]),
                                      (''a.txt'', FileNode ''hello'')])]))"
proof -
  let ?fs = "diskFs testPlatform :: (node, unit) fsModule"
  let ?files = "[\<lparr> name = ''b.txt'', parentPath = ''./sub'', path = ''./sub/b.txt'',
          data = JBuffer ''world'', options = None :: unit option \<rparr>,
        rootFile ''a.txt'' (JBuffer ''hello'')]"
  have h1: "ensureFolder ?fs ''/work'' (DirNode []) = (Inr (), DirNode [(''work'', DirNode [])])"
    by (simp add: ensureFolder_def checkFolderExists_def diskFs_def resolveSegments_def
        isAbsolute_def)
  have h2: "writeAll testPlatform ?fs ''/work'' ?files (DirNode [(''work'', DirNode [])])
     = (Inr (), DirNode [(''work'', DirNode [(''sub'', DirNode [(''b.txt'', FileNode ''world'')]),
                                              (''a.txt'', FileNode ''hello'')])])"
    by (simp add: writeOne_def ensureFolder_def checkFolderExists_def diskFs_def
        resolveSegments_def isAbsolute_def rootFile_def pathJoin_def posixNormalize_def
        normalizeString_def trailingSeparator_def)
  show ?thesis
    using writeFiles_returns_computeMetaHash [OF h1 h2] h1 h2 by blast
qed

section \<open>Properties of readFiles\<close>

text \<open>
  At the root of a walk the relative parent is \<open>.\<close>, whatever the directory: every
  file directly in the walked directory gets the parentPath \<open>./.\<close>.
\<close>

lemma stripBasePath_base_itself: "stripBasePath env dir dir = Inr ''.''"
  by (simp add: stripBasePath_def relative_def startsWith_def posixNormalize_def)

lemma readEntries_root_file:
  assumes "readEntries env dir dir ((entryName, FileNode d) # rest) = Inr files"
  shows "\<exists>f others. files = f # others \<and> name f = entryName \<and> parentPath f = ''./.''"
  using assms by (auto simp: stripBasePath_base_itself split: sum.splits)

text \<open>
  The end-to-end scenario of the specification: \<open>a.txt\<close> at the root and
  \<open>sub/b.txt\<close> are written into the fresh directory \<open>/work\<close>, and the walk brings
  both back with their \<open>path\<close> and content.
\<close>

lemma write_then_read_example:
  "writeFiles testPlatform (diskFs testPlatform) ''/work''
       [rootFile ''a.txt'' (JBuffer ''hello''),
        \<lparr> name = ''b.txt'', parentPath = ''./sub'', path = ''./sub/b.txt'',
          data = JBuffer ''world'', options = None \<rparr>]
       (DirNode [])
     = (Inr (''./:a.txt:hello'' @ [newline] @ ''./sub:b.txt:world'' @ [newline]),
        DirNode [(''work'', DirNode [(''a.txt'', FileNode ''hello''),
                                     (''sub'', DirNode [(''b.txt'', FileNode ''world'')])])]) \<and>
   map (\<lambda>f. (path f, data f))
     (projr (readFiles testPlatform
        (DirNode [(''work'', DirNode [(''a.txt'', FileNode ''hello''),
                                      (''sub'', DirNode [(''b.txt'', FileNode ''world'')])])])
        ''/work'' :: error + unit File list))
     = [(''./a.txt'', JBuffer ''hello''), (''./sub/b.txt'', JBuffer ''world'')]"
  by (simp add: writeFiles_def writeOne_def ensureFolder_def checkFolderExists_def diskFs_def
      resolveSegments_def isAbsolute_def rootFile_def pathJoin_def posixNormalize_def
      normalizeString_def trailingSeparator_def readFiles_def readFilesFrom_def
      stripBasePath_def relative_def resolve_def startsWith_def computeMetaHash_def
      sortBy_def compareFiles_def sortKey_def testPlatform_def codeUnitCompare_def)

text \<open>
  C8: the file-set of one record named \<open>..foo\<close> at the root is written into the fresh
  directory \<open>/work\<close> of an empty disk; the write succeeds and leaves the file there, and
  walking \<open>/work\<close> afterwards fails, because \<open>stripBasePath\<close> refuses the relative path
  \<open>..foo\<close>. No file-set comes back.
\<close>

theorem write_then_read_dotdot_prefixed_name:
  "writeFiles testPlatform (diskFs testPlatform) ''/work'' [rootFile ''..foo'' (JBuffer ''x'')]
       (DirNode [])
     = (computeMetaHash testPlatform [rootFile ''..foo'' (JBuffer ''x'')],
        DirNode [(''work'', DirNode [(''..foo'', FileNode ''x'')])]) \<and>
   (readFiles testPlatform (DirNode [(''work'', DirNode [(''..foo'', FileNode ''x'')])]) ''/work''
      :: error + unit File list)
     = Inl (NotUnderBasePath ''/work/..foo'' ''/work'')"
  by (simp add: writeFiles_def writeOne_def ensureFolder_def checkFolderExists_def diskFs_def
      resolveSegments_def isAbsolute_def rootFile_def pathJoin_def posixNormalize_def
      normalizeString_def trailingSeparator_def readFiles_def readFilesFrom_def
      stripBasePath_def relative_def resolve_def startsWith_def)

text \<open>
  C9: walking a directory that holds \<open>a.txt\<close> and \<open>sub/b.txt\<close> gives the file at the
  root of the walk the parentPath \<open>./.\<close>, not \<open>./\<close>: \<open>stripBasePath\<close> of the root
  itself is \<open>.\<close> (the normal form of the empty relative path), and the walk prefixes
  it with \<open>./\<close>. The file below the root gets \<open>./sub\<close>.
\<close>

theorem readFiles_root_parentPath:
  "stripBasePath testPlatform ''/work'' ''/work'' = Inr ''.'' \<and>
   (readFiles testPlatform
      (DirNode [(''work'', DirNode [(''a.txt'', FileNode ''hello''),
                                    (''sub'', DirNode [(''b.txt'', FileNode ''world'')])])])
      ''/work'' :: error + unit File list)
     = Inr [\<lparr> name = ''a.txt'', parentPath = ''./.'', path = ''./a.txt'',
              data = JBuffer ''hello'', options = None \<rparr>,
            \<lparr> name = ''b.txt'', parentPath = ''./sub'', path = ''./sub/b.txt'',
              data = JBuffer ''world'', options = None \<rparr>]"
  by (simp add: resolveSegments_def isAbsolute_def pathJoin_def posixNormalize_def
      normalizeString_def trailingSeparator_def readFiles_def readFilesFrom_def
      stripBasePath_def relative_def resolve_def startsWith_def)

end
